theory Spec2Isabelle
  imports Main
begin

section \<open>Values and exceptions\<close>

text \<open>
  The records of \<^verbatim>\<open>dags/app.py\<close> are Python dictionaries whose values are what the
  Extractor's mapping step writes: \<^verbatim>\<open>None\<close>, a string, or a list. Python decides
  \<^verbatim>\<open>not v\<close> and \<^verbatim>\<open>a or b\<close> by the truth value of the operand, and a set only takes
  hashable members (a list is not hashable: \<^verbatim>\<open>x in seen\<close> raises \<^verbatim>\<open>TypeError\<close>).
\<close>

datatype pyval = PNone | PStr string | PList "pyval list"

fun truthy :: "pyval \<Rightarrow> bool" where
  "truthy PNone = False"
| "truthy (PStr s) = (s \<noteq> [])"
| "truthy (PList vs) = (vs \<noteq> [])"

fun hashable :: "pyval \<Rightarrow> bool" where
  "hashable (PList vs) = False"
| "hashable v = True"

definition py_or :: "pyval \<Rightarrow> pyval \<Rightarrow> pyval" where
  \<comment> \<open>\<^verbatim>\<open>a or b\<close>\<close>
  "py_or a b = (if truthy a then a else b)"

text \<open>
  Exceptions are values. \<open>py_exception\<close> stands for the instances of Python's class
  \<^verbatim>\<open>Exception\<close>, which is what a library call or an attribute access raises; the two
  named ones are those the model itself produces.
\<close>

datatype py_exception = TypeError | AttributeError | OtherException string

type_synonym pydict = "string \<rightharpoonup> pyval"

definition dict_get :: "pydict \<Rightarrow> string \<Rightarrow> pyval" where
  \<comment> \<open>\<^verbatim>\<open>m.get(k)\<close>: \<^verbatim>\<open>None\<close> for a missing key\<close>
  "dict_get m k = (case m k of None \<Rightarrow> PNone | Some v \<Rightarrow> v)"

section \<open>The hand-off store\<close>

text \<open>
  The cleaned record is the dictionary literal of lines 94 to 100, with its five fixed
  keys. The hand-off store (XCom) holds one value per key; a key never pushed reads as
  \<^verbatim>\<open>None\<close>.
\<close>

record clean_record =
  model_id :: pyval
  author :: pyval
  pipeline_tag :: pyval
  tags :: pyval
  last_modified :: pyval

record xcom =
  raw_models :: "pydict list option"
  transformed_models :: "clean_record list option"

definition or_empty :: "'a list option \<Rightarrow> 'a list" where
  \<comment> \<open>\<^verbatim>\<open>ti.xcom_pull(...) or []\<close>\<close>
  "or_empty v = (case v of None \<Rightarrow> [] | Some xs \<Rightarrow> (if xs = [] then [] else xs))"

section \<open>Extract\<close>

text \<open>
  \<^verbatim>\<open>list_models\<close> belongs to the hub client, not to this program: its outcome in a run is
  an input of the model. The call itself may raise; otherwise it hands back an iterator,
  which yields some models and then either ends or raises. A hub model is an object read
  through its attributes, and reading an attribute it does not have raises
  \<^verbatim>\<open>AttributeError\<close>. Python's \<^verbatim>\<open>str\<close> is the parameter \<open>py_str\<close>.
\<close>

type_synonym hub_model = "string \<rightharpoonup> pyval"

datatype api_outcome =
  CallRaises py_exception
| Yields "hub_model list" "py_exception option"

definition getattr :: "hub_model \<Rightarrow> string \<Rightarrow> py_exception + pyval" where
  "getattr m a = (case m a of None \<Rightarrow> Inl AttributeError | Some v \<Rightarrow> Inr v)"

definition raw_of :: "(pyval \<Rightarrow> string) \<Rightarrow> hub_model \<Rightarrow> py_exception + pydict" where
  \<comment> \<open>the dictionary display of lines 50 to 56, evaluated top to bottom\<close>
  "raw_of py_str m =
     (case getattr m ''id'' of Inl e \<Rightarrow> Inl e | Inr mid \<Rightarrow>
      case getattr m ''author'' of Inl e \<Rightarrow> Inl e | Inr a \<Rightarrow>
      case getattr m ''pipeline_tag'' of Inl e \<Rightarrow> Inl e | Inr p \<Rightarrow>
      case getattr m ''tags'' of Inl e \<Rightarrow> Inl e | Inr t \<Rightarrow>
      case getattr m ''lastModified'' of Inl e \<Rightarrow> Inl e | Inr lm \<Rightarrow>
        Inr [''model_id'' \<mapsto> mid,
             ''author'' \<mapsto> (if truthy a then a else PNone),
             ''pipeline_tag'' \<mapsto> (if truthy p then p else PNone),
             ''tags'' \<mapsto> (if truthy t then t else PList []),
             ''last_modified'' \<mapsto> PStr (py_str lm)])"

fun map_models ::
  "(pyval \<Rightarrow> string) \<Rightarrow> hub_model list \<Rightarrow> py_exception option \<Rightarrow> py_exception + pydict list" where
  "map_models py_str [] None = Inr []"
| "map_models py_str [] (Some e) = Inl e"
| "map_models py_str (m # ms) stop =
     (case raw_of py_str m of
        Inl e \<Rightarrow> Inl e
      | Inr r \<Rightarrow> (case map_models py_str ms stop of Inl e \<Rightarrow> Inl e | Inr rs \<Rightarrow> Inr (r # rs)))"

definition extract_try :: "(pyval \<Rightarrow> string) \<Rightarrow> api_outcome \<Rightarrow> py_exception + pydict list" where
  \<comment> \<open>lines 42 to 56: the call and the comprehension over its iterator\<close>
  "extract_try py_str api =
     (case api of CallRaises e \<Rightarrow> Inl e | Yields models stop \<Rightarrow> map_models py_str models stop)"

definition extract_model_data ::
  "(pyval \<Rightarrow> string) \<Rightarrow> api_outcome \<Rightarrow> xcom \<Rightarrow> py_exception + (string \<times> xcom)" where
  "extract_model_data py_str api ti =
     (case extract_try py_str api of
        Inr raw \<Rightarrow> Inr (''Extract completed successfully'', ti\<lparr>raw_models := Some raw\<rparr>)
      | Inl e \<Rightarrow> Inr (''Extract failed'', ti\<lparr>raw_models := Some []\<rparr>))"

section \<open>Transform\<close>

definition clean_of :: "pydict \<Rightarrow> clean_record" where
  \<comment> \<open>lines 94 to 100\<close>
  "clean_of m =
     \<lparr> model_id = dict_get m ''model_id'',
       author = py_or (dict_get m ''author'') (PStr ''N/A''),
       pipeline_tag = py_or (dict_get m ''pipeline_tag'') (PStr ''N/A''),
       tags = py_or (dict_get m ''tags'') (PList []),
       last_modified = dict_get m ''last_modified'' \<rparr>"

text \<open>
  The loop of lines 88 to 100, with its two variables \<open>seen\<close> and \<open>transformed_data\<close>.
  \<^verbatim>\<open>not mid or mid in seen\<close> evaluates \<^verbatim>\<open>mid in seen\<close> only for a truthy \<open>mid\<close>, and
  that test raises for an unhashable one.
\<close>

fun transform_loop ::
  "pydict list \<Rightarrow> pyval set \<Rightarrow> clean_record list \<Rightarrow> py_exception + clean_record list" where
  "transform_loop [] seen transformed_data = Inr transformed_data"
| "transform_loop (m # ms) seen transformed_data =
     (let mid = dict_get m ''model_id'' in
      if \<not> truthy mid then transform_loop ms seen transformed_data
      else if \<not> hashable mid then Inl TypeError
      else if mid \<in> seen then transform_loop ms seen transformed_data
      else transform_loop ms (insert mid seen) (transformed_data @ [clean_of m]))"

definition transform_model_data :: "xcom \<Rightarrow> py_exception + (string \<times> xcom)" where
  "transform_model_data ti =
     (let raw = or_empty (raw_models ti) in
      case transform_loop raw {} [] of
        Inl e \<Rightarrow> Inl e
      | Inr transformed_data \<Rightarrow>
          Inr (''Transform completed successfully'',
               ti\<lparr>transformed_models := Some transformed_data\<rparr>))"

section \<open>Load\<close>

text \<open>
  The relational store is outside the program; the model follows the two statements the
  Loader sends. \<^verbatim>\<open>CREATE TABLE IF NOT EXISTS\<close> makes an empty table where there is none.
  \<^verbatim>\<open>INSERT ... ON CONFLICT (model_id) DO UPDATE\<close> appends a row, or, where a row with
  that key exists, sets its four other columns. Values are stored as they are passed.
\<close>

record ai_models_row =
  col_model_id :: pyval
  col_author :: pyval
  col_pipeline_tag :: pyval
  col_tags :: pyval
  col_last_modified :: pyval

datatype statement = Create_table_query | Insert_query ai_models_row

record postgres =
  ai_models :: "ai_models_row list option"
  executed :: "statement list"
  connections :: nat

definition on_conflict_update :: "ai_models_row \<Rightarrow> ai_models_row \<Rightarrow> ai_models_row" where
  "on_conflict_update excluded old =
     old\<lparr> col_author := col_author excluded,
          col_pipeline_tag := col_pipeline_tag excluded,
          col_tags := col_tags excluded,
          col_last_modified := col_last_modified excluded \<rparr>"

definition upsert :: "ai_models_row \<Rightarrow> ai_models_row list \<Rightarrow> ai_models_row list" where
  "upsert new rows =
     (if \<exists>old \<in> set rows. col_model_id old = col_model_id new
      then map (\<lambda>old. if col_model_id old = col_model_id new
                       then on_conflict_update new old else old) rows
      else rows @ [new])"

fun execute :: "statement \<Rightarrow> ai_models_row list option \<Rightarrow> py_exception + ai_models_row list option" where
  "execute Create_table_query None = Inr (Some [])"
| "execute Create_table_query (Some rows) = Inr (Some rows)"
| "execute (Insert_query new) None = Inl (OtherException ''UndefinedTable'')"
| "execute (Insert_query new) (Some rows) = Inr (Some (upsert new rows))"

text \<open>
  \<^verbatim>\<open>postgres_hook.run\<close> takes a connection, executes one statement and commits it before
  it returns; when the statement fails nothing of it is applied and the exception comes
  out of the call. Which calls fail for reasons of the store (a lost connection, a value
  the column rejects) is an input of the model: \<open>fault n\<close> is the exception, if any, of
  the statement sent when \<open>n\<close> statements have been sent before it.
\<close>

definition hook_run ::
  "(nat \<Rightarrow> py_exception option) \<Rightarrow> statement \<Rightarrow> postgres \<Rightarrow> py_exception option \<times> postgres" where
  "hook_run fault q db =
     (let db1 = db\<lparr> executed := executed db @ [q], connections := Suc (connections db) \<rparr> in
      case fault (length (executed db)) of
        Some e \<Rightarrow> (Some e, db1)
      | None \<Rightarrow>
          (case execute q (ai_models db) of
             Inl e \<Rightarrow> (Some e, db1)
           | Inr table \<Rightarrow> (None, db1\<lparr> ai_models := table \<rparr>)))"

definition parameters :: "clean_record \<Rightarrow> ai_models_row" where
  \<comment> \<open>the tuple of lines 151 to 157\<close>
  "parameters model =
     \<lparr> col_model_id = model_id model,
       col_author = author model,
       col_pipeline_tag = pipeline_tag model,
       col_tags = tags model,
       col_last_modified = last_modified model \<rparr>"

fun insert_loop ::
  "(nat \<Rightarrow> py_exception option) \<Rightarrow> clean_record list \<Rightarrow> postgres \<Rightarrow> py_exception option \<times> postgres" where
  "insert_loop fault [] db = (None, db)"
| "insert_loop fault (model # rest) db =
     (case hook_run fault (Insert_query (parameters model)) db of
        (Some e, db') \<Rightarrow> (Some e, db')
      | (None, db') \<Rightarrow> insert_loop fault rest db')"

fun str_nat :: "nat \<Rightarrow> string" where
  "str_nat n =
     (if n < 10 then [''0123456789'' ! n]
      else str_nat (n div 10) @ [''0123456789'' ! (n mod 10)])"

declare str_nat.simps [simp del]

definition load_to_postgres ::
  "(nat \<Rightarrow> py_exception option) \<Rightarrow> xcom \<Rightarrow> postgres \<Rightarrow> (py_exception + string) \<times> postgres" where
  "load_to_postgres fault ti db =
     (case transformed_models ti of
        None \<Rightarrow> (Inr ''No data to load'', db)
      | Some transformed_data \<Rightarrow>
          if transformed_data = [] then (Inr ''No data to load'', db)
          else
            (case hook_run fault Create_table_query db of
               (Some e, db1) \<Rightarrow> (Inl e, db1)
             | (None, db1) \<Rightarrow>
                 (case insert_loop fault transformed_data db1 of
                    (Some e, db2) \<Rightarrow> (Inl e, db2)
                  | (None, db2) \<Rightarrow>
                      (Inr (''loaded '' @ str_nat (length transformed_data) @ '' models''), db2))))"

section \<open>Vocabulary of the properties\<close>

text \<open>
  Position \<open>i\<close> of a raw list is a first occurrence when the record there has a valid
  (truthy) \<open>model_id\<close> that no earlier record of the list has. \<open>fresh\<close> is the same
  relative to a set of identifiers taken as seen already.
\<close>

definition first_occurrence :: "pydict list \<Rightarrow> nat \<Rightarrow> bool" where
  "first_occurrence raw i \<longleftrightarrow>
     i < length raw \<and> truthy (dict_get (raw ! i) ''model_id'') \<and>
     dict_get (raw ! i) ''model_id'' \<notin> set (map (\<lambda>m. dict_get m ''model_id'') (take i raw))"

definition fresh :: "pyval set \<Rightarrow> pydict list \<Rightarrow> nat \<Rightarrow> bool" where
  "fresh seen raw i \<longleftrightarrow> first_occurrence raw i \<and> dict_get (raw ! i) ''model_id'' \<notin> seen"

text \<open>
  The rows of the table, none where the table does not exist, and the table after the
  upserts of a list of records in order.
\<close>

definition table_of :: "postgres \<Rightarrow> ai_models_row list" where
  "table_of db = (case ai_models db of None \<Rightarrow> [] | Some rows \<Rightarrow> rows)"

definition upsert_all :: "ai_models_row list \<Rightarrow> clean_record list \<Rightarrow> ai_models_row list" where
  "upsert_all rows models = foldl (\<lambda>t model. upsert (parameters model) t) rows models"

abbreviation row_keys :: "ai_models_row list \<Rightarrow> pyval list" where
  "row_keys rows \<equiv> map col_model_id rows"

section \<open>Example data\<close>

text \<open>
  The record of the spec's Scenario A, a later and more complete record with the same
  identifier (Scenario B), a record whose optional fields are present but empty, and a
  record with no identifier.
\<close>

definition scenario_A :: pydict where
  "scenario_A =
     [''model_id'' \<mapsto> PStr ''m1'', ''author'' \<mapsto> PNone, ''pipeline_tag'' \<mapsto> PStr ''text-gen'',
      ''tags'' \<mapsto> PList [], ''last_modified'' \<mapsto> PStr ''2024-01-01'']"

definition later_m1 :: pydict where
  "later_m1 =
     [''model_id'' \<mapsto> PStr ''m1'', ''author'' \<mapsto> PStr ''bob'', ''pipeline_tag'' \<mapsto> PStr ''text-gen'',
      ''tags'' \<mapsto> PList [PStr ''nlp''], ''last_modified'' \<mapsto> PStr ''2024-02-02'']"

definition blank_m2 :: pydict where
  "blank_m2 =
     [''model_id'' \<mapsto> PStr ''m2'', ''author'' \<mapsto> PStr [], ''pipeline_tag'' \<mapsto> PStr [],
      ''tags'' \<mapsto> PList [], ''last_modified'' \<mapsto> PStr ''2024-03-03'']"

definition no_id :: pydict where
  "no_id = [''author'' \<mapsto> PStr ''eve'']"

definition bare_m3 :: pydict where
  "bare_m3 = [''model_id'' \<mapsto> PStr ''m3'']"

definition clean_m3 :: clean_record where
  "clean_m3 =
     \<lparr> model_id = PStr ''m3'', author = PStr ''N/A'', pipeline_tag = PStr ''N/A'',
       tags = PList [], last_modified = PNone \<rparr>"

definition clean_A :: clean_record where
  "clean_A =
     \<lparr> model_id = PStr ''m1'', author = PStr ''N/A'', pipeline_tag = PStr ''text-gen'',
       tags = PList [], last_modified = PStr ''2024-01-01'' \<rparr>"

definition clean_m2 :: clean_record where
  "clean_m2 =
     \<lparr> model_id = PStr ''m2'', author = PStr ''N/A'', pipeline_tag = PStr ''N/A'',
       tags = PList [], last_modified = PStr ''2024-03-03'' \<rparr>"

definition store_of :: "pydict list \<Rightarrow> xcom" where
  "store_of raw = \<lparr> raw_models = Some raw, transformed_models = None \<rparr>"

definition cleaned_store :: "clean_record list \<Rightarrow> xcom" where
  "cleaned_store models = \<lparr> raw_models = None, transformed_models = Some models \<rparr>"

definition str_text :: "pyval \<Rightarrow> string" where
  \<comment> \<open>\<^verbatim>\<open>str\<close> on a string and on \<^verbatim>\<open>None\<close>, the only values the examples apply it to\<close>
  "str_text v = (case v of PStr s \<Rightarrow> s | _ \<Rightarrow> ''None'')"

definition hub_m1 :: hub_model where
  "hub_m1 =
     [''id'' \<mapsto> PStr ''m1'', ''author'' \<mapsto> PNone, ''pipeline_tag'' \<mapsto> PStr ''text-gen'',
      ''tags'' \<mapsto> PNone, ''lastModified'' \<mapsto> PStr ''2024-01-01'']"

definition empty_db :: postgres where
  "empty_db = \<lparr> ai_models = None, executed = [], connections = 0 \<rparr>"

definition db_once :: postgres where
  "db_once =
     \<lparr> ai_models = Some [parameters clean_A, parameters clean_m2],
       executed = [Create_table_query, Insert_query (parameters clean_A),
                   Insert_query (parameters clean_m2)],
       connections = 3 \<rparr>"

definition db_twice :: postgres where
  "db_twice =
     \<lparr> ai_models = Some [parameters clean_A, parameters clean_m2],
       executed = [Create_table_query, Insert_query (parameters clean_A),
                   Insert_query (parameters clean_m2),
                   Create_table_query, Insert_query (parameters clean_A),
                   Insert_query (parameters clean_m2)],
       connections = 6 \<rparr>"

definition clean_A_updated :: clean_record where
  "clean_A_updated =
     \<lparr> model_id = PStr ''m1'', author = PStr ''bob'', pipeline_tag = PStr ''text-gen'',
       tags = PList [PStr ''nlp''], last_modified = PStr ''2024-02-02'' \<rparr>"

definition db_updated :: postgres where
  "db_updated =
     \<lparr> ai_models = Some [parameters clean_A_updated, parameters clean_m2],
       executed = [Create_table_query, Insert_query (parameters clean_A),
                   Insert_query (parameters clean_m2),
                   Create_table_query, Insert_query (parameters clean_A_updated)],
       connections = 5 \<rparr>"

definition no_fault :: "nat \<Rightarrow> py_exception option" where
  "no_fault n = None"

definition fault_at :: "nat \<Rightarrow> nat \<Rightarrow> py_exception option" where
  "fault_at k n = (if n = k then Some (OtherException ''OperationalError'') else None)"

section \<open>Properties of the transformer\<close>

lemma model_id_clean_of [simp]: "model_id (clean_of m) = dict_get m ''model_id''"
  by (simp add: clean_of_def)

lemma transform_loop_distinct:
  "transform_loop ms seen acc = Inr out \<Longrightarrow> distinct (map model_id acc) \<Longrightarrow>
   model_id ` set acc \<subseteq> seen \<Longrightarrow> distinct (map model_id out)"
proof (induction ms arbitrary: seen acc)
  case Nil
  then show ?case by simp
next
  case (Cons m ms)
  let ?mid = "dict_get m ''model_id''"
  show ?case
  proof (cases "\<not> truthy ?mid \<or> ?mid \<in> seen")
    case True
    with Cons.prems have "transform_loop ms seen acc = Inr out"
      by (auto simp: Let_def split: if_splits)
    with Cons.IH Cons.prems show ?thesis by blast
  next
    case False
    with Cons.prems have run: "transform_loop ms (insert ?mid seen) (acc @ [clean_of m]) = Inr out"
      by (auto simp: Let_def split: if_splits)
    have "distinct (map model_id (acc @ [clean_of m]))"
      using False Cons.prems(2,3) by auto
    moreover have "model_id ` set (acc @ [clean_of m]) \<subseteq> insert ?mid seen"
      using Cons.prems(3) by auto
    ultimately show ?thesis using Cons.IH [OF run] by blast
  qed
qed

lemma transform_model_data_Inr:
  "transform_model_data ti = Inr (msg, ti') \<Longrightarrow>
   \<exists>out. transform_loop (or_empty (raw_models ti)) {} [] = Inr out \<and>
         msg = ''Transform completed successfully'' \<and>
         ti' = ti\<lparr>transformed_models := Some out\<rparr>"
  by (auto simp: transform_model_data_def Let_def split: sum.splits)

text \<open>
  C1. Whatever the hand-off store holds under \<open>raw_models\<close>, the list that
  \<open>transform_model_data\<close> pushes under \<open>transformed_models\<close> has no two records with the
  same \<open>model_id\<close>.
\<close>

theorem transform_unique_model_id:
  assumes "transform_model_data ti = Inr (msg, ti')"
  shows "\<exists>out. transformed_models ti' = Some out \<and> distinct (map model_id out)"
proof -
  from assms obtain out where
    run: "transform_loop (or_empty (raw_models ti)) {} [] = Inr out" and
    ti': "ti' = ti\<lparr>transformed_models := Some out\<rparr>"
    using transform_model_data_Inr by blast
  from run have "distinct (map model_id out)"
    by (rule transform_loop_distinct) simp_all
  with ti' show ?thesis by simp
qed


lemma transform_example:
  "transform_model_data (store_of [scenario_A, later_m1, no_id, blank_m2]) =
     Inr (''Transform completed successfully'',
          (store_of [scenario_A, later_m1, no_id, blank_m2])
            \<lparr>transformed_models := Some [clean_A, clean_m2]\<rparr>)"
  by (simp add: transform_model_data_def store_of_def or_empty_def scenario_A_def later_m1_def
      no_id_def blank_m2_def clean_A_def clean_m2_def dict_get_def clean_of_def py_or_def)

lemma scenario_A_transform:
  "transform_model_data (store_of [scenario_A]) =
     Inr (''Transform completed successfully'',
          (store_of [scenario_A])\<lparr>transformed_models := Some [clean_A]\<rparr>)"
  by (simp add: transform_model_data_def store_of_def or_empty_def scenario_A_def clean_A_def
      dict_get_def clean_of_def py_or_def)

theorem transform_unique_model_id_witness:
  "transform_model_data (store_of [scenario_A, later_m1, no_id, blank_m2]) =
     Inr (''Transform completed successfully'',
          (store_of [scenario_A, later_m1, no_id, blank_m2])
            \<lparr>transformed_models := Some [clean_A, clean_m2]\<rparr>) \<and>
   distinct (map model_id [clean_A, clean_m2])"
  using transform_unique_model_id [OF transform_example] transform_example by simp

subsection \<open>The output, position by position\<close>

lemma fresh_0: "fresh seen (m # ms) 0 \<longleftrightarrow> truthy (dict_get m ''model_id'') \<and> dict_get m ''model_id'' \<notin> seen"
  by (auto simp: fresh_def first_occurrence_def)

lemma fresh_Suc_insert:
  "fresh seen (m # ms) (Suc i) \<longleftrightarrow> fresh (insert (dict_get m ''model_id'') seen) ms i"
  by (auto simp: fresh_def first_occurrence_def)

lemma fresh_Suc_skip:
  "\<not> truthy (dict_get m ''model_id'') \<or> dict_get m ''model_id'' \<in> seen \<Longrightarrow>
   fresh seen (m # ms) (Suc i) \<longleftrightarrow> fresh seen ms i"
  by (auto simp: fresh_def first_occurrence_def)

lemma filter_upt_Suc:
  "filter P [0..<Suc n] = (if P 0 then [0] else []) @ map Suc (filter (P \<circ> Suc) [0..<n])"
proof -
  have "[0..<Suc n] = 0 # map Suc [0..<n]"
    by (simp add: upt_conv_Cons map_Suc_upt del: upt_Suc)
  then show ?thesis by (simp add: filter_map del: upt_Suc)
qed

lemma transform_loop_indices:
  "transform_loop raw seen acc = Inr out \<Longrightarrow>
   out = acc @ map (\<lambda>i. clean_of (raw ! i)) (filter (fresh seen raw) [0..<length raw])"
proof (induction raw arbitrary: seen acc)
  case Nil
  then show ?case by simp
next
  case (Cons m ms)
  let ?mid = "dict_get m ''model_id''"
  let ?sel = "\<lambda>P. map (\<lambda>i. clean_of ((m # ms) ! i)) (map Suc (filter P [0..<length ms]))"
  have shift: "?sel P = map (\<lambda>i. clean_of (ms ! i)) (filter P [0..<length ms])" for P
    by (simp add: comp_def)
  show ?case
  proof (cases "\<not> truthy ?mid \<or> ?mid \<in> seen")
    case True
    with Cons.prems have "transform_loop ms seen acc = Inr out"
      by (auto simp: Let_def split: if_splits)
    from Cons.IH [OF this]
    have out: "out = acc @ map (\<lambda>i. clean_of (ms ! i)) (filter (fresh seen ms) [0..<length ms])" .
    have "filter (fresh seen (m # ms) \<circ> Suc) [0..<length ms] = filter (fresh seen ms) [0..<length ms]"
      using True by (intro filter_cong refl) (auto simp: fresh_Suc_skip)
    moreover have "\<not> fresh seen (m # ms) 0"
      using True by (auto simp: fresh_0)
    ultimately show ?thesis
      using out by (simp add: filter_upt_Suc comp_def del: upt_Suc)
  next
    case False
    with Cons.prems have "transform_loop ms (insert ?mid seen) (acc @ [clean_of m]) = Inr out"
      by (auto simp: Let_def split: if_splits)
    from Cons.IH [OF this]
    have out: "out = (acc @ [clean_of m]) @
        map (\<lambda>i. clean_of (ms ! i)) (filter (fresh (insert ?mid seen) ms) [0..<length ms])" .
    have "filter (fresh seen (m # ms) \<circ> Suc) [0..<length ms] =
          filter (fresh (insert ?mid seen) ms) [0..<length ms]"
      by (intro filter_cong refl) (auto simp: fresh_Suc_insert)
    moreover have "fresh seen (m # ms) 0"
      using False by (auto simp: fresh_0)
    ultimately show ?thesis
      using out by (simp add: filter_upt_Suc comp_def del: upt_Suc)
  qed
qed

lemma fresh_empty: "fresh {} raw = first_occurrence raw"
  by (simp add: fresh_def fun_eq_iff)

lemma transform_loop_first_occurrences:
  "transform_loop raw {} [] = Inr out \<Longrightarrow>
   out = map (\<lambda>i. clean_of (raw ! i)) (filter (first_occurrence raw) [0..<length raw])"
  using transform_loop_indices [of raw "{}" "[]" out] by (simp add: fresh_empty)

lemma distinct_set_single:
  "distinct xs \<Longrightarrow> set xs = {x} \<Longrightarrow> xs = [x]"
proof (cases xs)
  case Nil
  assume "set xs = {x}"
  with Nil show ?thesis by simp
next
  case (Cons a ys)
  assume d: "distinct xs" and s: "set xs = {x}"
  from s Cons have a: "a = x" and sub: "set ys \<subseteq> {x}" by auto
  from d Cons a have "x \<notin> set ys" by simp
  with sub have "ys = []" by (cases ys) auto
  with Cons a show ?thesis by simp
qed

lemma filter_upt_single:
  assumes "i < n" "P i" "\<And>k. k < n \<Longrightarrow> P k \<Longrightarrow> k = i"
  shows "filter P [0..<n] = [i]"
proof (rule distinct_set_single)
  show "distinct (filter P [0..<n])" by simp
  show "set (filter P [0..<n]) = {i}"
  proof (rule set_eqI)
    fix k
    have "k \<in> set (filter P [0..<n]) \<longleftrightarrow> k < n \<and> P k" by simp
    also have "\<dots> \<longleftrightarrow> k = i" using assms by blast
    finally show "k \<in> set (filter P [0..<n]) \<longleftrightarrow> k \<in> {i}" by simp
  qed
qed

lemma earlier_in_take:
  "k < i \<Longrightarrow> i < length raw \<Longrightarrow> f (raw ! k) \<in> set (map f (take i raw))"
proof -
  assume "k < i" "i < length raw"
  then have "k < length (take i raw)" "take i raw ! k = raw ! k" by simp_all
  then have "raw ! k \<in> set (take i raw)" by (metis nth_mem)
  then show ?thesis by simp
qed

lemma first_occurrence_unique:
  assumes "first_occurrence raw i" "first_occurrence raw k"
    and "dict_get (raw ! k) ''model_id'' = dict_get (raw ! i) ''model_id''"
  shows "k = i"
proof (rule ccontr)
  assume "k \<noteq> i"
  then consider "k < i" | "i < k" by linarith
  then show False
  proof cases
    case 1
    with assms(1) have "dict_get (raw ! k) ''model_id'' \<in> set (map (\<lambda>m. dict_get m ''model_id'') (take i raw))"
      by (intro earlier_in_take) (simp_all add: first_occurrence_def)
    with assms(1,3) show False by (simp add: first_occurrence_def)
  next
    case 2
    with assms(2) have "dict_get (raw ! i) ''model_id'' \<in> set (map (\<lambda>m. dict_get m ''model_id'') (take k raw))"
      by (intro earlier_in_take) (simp_all add: first_occurrence_def)
    with assms(2,3) show False by (simp add: first_occurrence_def)
  qed
qed

lemma transform_loop_entry:
  assumes run: "transform_loop raw {} [] = Inr out" and i: "first_occurrence raw i"
  shows "filter (\<lambda>r. model_id r = dict_get (raw ! i) ''model_id'') out = [clean_of (raw ! i)]"
proof -
  let ?v = "dict_get (raw ! i) ''model_id''"
  have out: "out = map (\<lambda>k. clean_of (raw ! k)) (filter (first_occurrence raw) [0..<length raw])"
    using run by (rule transform_loop_first_occurrences)
  have "filter (\<lambda>k. first_occurrence raw k \<and> dict_get (raw ! k) ''model_id'' = ?v) [0..<length raw] = [i]"
    using i first_occurrence_unique [OF i]
    by (intro filter_upt_single) (auto simp: first_occurrence_def)
  then show ?thesis
    by (simp add: out filter_map comp_def conj_commute)
qed

lemma transform_loop_returns:
  "\<forall>m \<in> set raw. hashable (dict_get m ''model_id'') \<Longrightarrow>
   \<exists>out. transform_loop raw seen acc = Inr out"
  by (induction raw arbitrary: seen acc) (auto simp: Let_def)

lemma transform_model_data_Some:
  assumes "raw_models ti = Some raw" and "transform_model_data ti = Inr (msg, ti')"
  shows "\<exists>out. transformed_models ti' = Some out \<and> transform_loop raw {} [] = Inr out"
proof -
  from assms(1) have "or_empty (raw_models ti) = raw" by (simp add: or_empty_def)
  with transform_model_data_Inr [OF assms(2)] show ?thesis by auto
qed

lemma first_occurrence_examples:
  "filter (first_occurrence [scenario_A, later_m1, no_id, blank_m2])
     [0..<length [scenario_A, later_m1, no_id, blank_m2]] = [0, 3]"
  by (simp add: first_occurrence_def scenario_A_def later_m1_def no_id_def blank_m2_def
      dict_get_def)

text \<open>
  C5. The identifiers of the transformed list are, in order, the identifiers found at
  the first occurrences of valid identifiers in the raw list: position \<open>i\<close> of the input
  contributes exactly when it is a first occurrence, and the contributions keep the order
  of the input.
\<close>

theorem transform_keeps_first_occurrence_order:
  assumes "raw_models ti = Some raw" and "transform_model_data ti = Inr (msg, ti')"
  shows "\<exists>out. transformed_models ti' = Some out \<and>
           map model_id out =
             map (\<lambda>i. dict_get (raw ! i) ''model_id'')
               (filter (first_occurrence raw) [0..<length raw])"
proof -
  from transform_model_data_Some [OF assms] obtain out where
    out: "transformed_models ti' = Some out" and run: "transform_loop raw {} [] = Inr out"
    by blast
  from transform_loop_first_occurrences [OF run]
  have "map model_id out =
          map (\<lambda>i. dict_get (raw ! i) ''model_id'') (filter (first_occurrence raw) [0..<length raw])"
    by (simp add: comp_def)
  with out show ?thesis by blast
qed

theorem transform_keeps_first_occurrence_order_witness:
  "raw_models (store_of [scenario_A, later_m1, no_id, blank_m2]) =
     Some [scenario_A, later_m1, no_id, blank_m2] \<and>
   transform_model_data (store_of [scenario_A, later_m1, no_id, blank_m2]) =
     Inr (''Transform completed successfully'',
          (store_of [scenario_A, later_m1, no_id, blank_m2])
            \<lparr>transformed_models := Some [clean_A, clean_m2]\<rparr>) \<and>
   map model_id [clean_A, clean_m2] = [PStr ''m1'', PStr ''m2'']"
proof -
  have h: "raw_models (store_of [scenario_A, later_m1, no_id, blank_m2]) =
             Some [scenario_A, later_m1, no_id, blank_m2]"
    by (simp add: store_of_def)
  from transform_keeps_first_occurrence_order
    [OF h transform_example, unfolded first_occurrence_examples]
  have "map model_id [clean_A, clean_m2] = [PStr ''m1'', PStr ''m2'']"
    by (simp add: scenario_A_def blank_m2_def dict_get_def)
  with h transform_example show ?thesis by blast
qed

text \<open>
  C6. Where several raw records share a valid \<open>model_id\<close>, the transformed list has
  exactly one record with that identifier, and its fields are those of the first
  occurrence, with the defaults applied: nothing of a later record with the same
  identifier reaches the output, however complete it is.
\<close>

theorem transform_first_occurrence_wins:
  assumes "raw_models ti = Some raw" and "transform_model_data ti = Inr (msg, ti')"
    and "first_occurrence raw i"
  shows "\<exists>out. transformed_models ti' = Some out \<and>
           filter (\<lambda>r. model_id r = dict_get (raw ! i) ''model_id'') out =
             [\<lparr> model_id = dict_get (raw ! i) ''model_id'',
                author = py_or (dict_get (raw ! i) ''author'') (PStr ''N/A''),
                pipeline_tag = py_or (dict_get (raw ! i) ''pipeline_tag'') (PStr ''N/A''),
                tags = py_or (dict_get (raw ! i) ''tags'') (PList []),
                last_modified = dict_get (raw ! i) ''last_modified'' \<rparr>]"
proof -
  from transform_model_data_Some [OF assms(1,2)] obtain out where
    out: "transformed_models ti' = Some out" and run: "transform_loop raw {} [] = Inr out"
    by blast
  from transform_loop_entry [OF run assms(3)] out show ?thesis
    by (simp add: clean_of_def)
qed

theorem transform_first_occurrence_wins_witness:
  "raw_models (store_of [scenario_A, later_m1, no_id, blank_m2]) =
     Some [scenario_A, later_m1, no_id, blank_m2] \<and>
   transform_model_data (store_of [scenario_A, later_m1, no_id, blank_m2]) =
     Inr (''Transform completed successfully'',
          (store_of [scenario_A, later_m1, no_id, blank_m2])
            \<lparr>transformed_models := Some [clean_A, clean_m2]\<rparr>) \<and>
   first_occurrence [scenario_A, later_m1, no_id, blank_m2] 0 \<and>
   dict_get later_m1 ''model_id'' = dict_get scenario_A ''model_id'' \<and>
   filter (\<lambda>r. model_id r = PStr ''m1'') [clean_A, clean_m2] =
     [\<lparr> model_id = PStr ''m1'', author = PStr ''N/A'', pipeline_tag = PStr ''text-gen'',
        tags = PList [], last_modified = PStr ''2024-01-01'' \<rparr>]"
proof -
  have h: "raw_models (store_of [scenario_A, later_m1, no_id, blank_m2]) =
             Some [scenario_A, later_m1, no_id, blank_m2]"
    by (simp add: store_of_def)
  have f: "first_occurrence [scenario_A, later_m1, no_id, blank_m2] 0"
    by (simp add: first_occurrence_def scenario_A_def dict_get_def)
  have d: "dict_get later_m1 ''model_id'' = dict_get scenario_A ''model_id''"
    by (simp add: scenario_A_def later_m1_def dict_get_def)
  from transform_first_occurrence_wins [OF h transform_example f]
  have "filter (\<lambda>r. model_id r = PStr ''m1'') [clean_A, clean_m2] =
     [\<lparr> model_id = PStr ''m1'', author = PStr ''N/A'', pipeline_tag = PStr ''text-gen'',
        tags = PList [], last_modified = PStr ''2024-01-01'' \<rparr>]"
    by (simp add: scenario_A_def dict_get_def py_or_def)
  with h f d transform_example show ?thesis by blast
qed

text \<open>
  C7. For a raw record that is emitted (it holds the first occurrence of a valid
  \<open>model_id\<close>), the cleaned record with that identifier has the string \<open>N/A\<close> as
  \<open>author\<close> when the raw record has no author (the key is missing or its value is
  \<open>None\<close>), the same for \<open>pipeline_tag\<close>, and the empty list as \<open>tags\<close> when the
  raw record has no tags.
\<close>

theorem transform_defaults_missing_fields:
  assumes "raw_models ti = Some raw" and "transform_model_data ti = Inr (msg, ti')"
    and "first_occurrence raw i"
  shows "\<exists>out r. transformed_models ti' = Some out \<and>
           filter (\<lambda>r. model_id r = dict_get (raw ! i) ''model_id'') out = [r] \<and>
           ((raw ! i) ''author'' = None \<or> (raw ! i) ''author'' = Some PNone
              \<longrightarrow> author r = PStr ''N/A'') \<and>
           ((raw ! i) ''pipeline_tag'' = None \<or> (raw ! i) ''pipeline_tag'' = Some PNone
              \<longrightarrow> pipeline_tag r = PStr ''N/A'') \<and>
           ((raw ! i) ''tags'' = None \<or> (raw ! i) ''tags'' = Some PNone
              \<longrightarrow> tags r = PList [])"
proof -
  from transform_model_data_Some [OF assms(1,2)] obtain out where
    out: "transformed_models ti' = Some out" and run: "transform_loop raw {} [] = Inr out"
    by blast
  have "author (clean_of (raw ! i)) = PStr ''N/A''"
    if "(raw ! i) ''author'' = None \<or> (raw ! i) ''author'' = Some PNone"
    using that by (auto simp: clean_of_def dict_get_def py_or_def)
  moreover have "pipeline_tag (clean_of (raw ! i)) = PStr ''N/A''"
    if "(raw ! i) ''pipeline_tag'' = None \<or> (raw ! i) ''pipeline_tag'' = Some PNone"
    using that by (auto simp: clean_of_def dict_get_def py_or_def)
  moreover have "tags (clean_of (raw ! i)) = PList []"
    if "(raw ! i) ''tags'' = None \<or> (raw ! i) ''tags'' = Some PNone"
    using that by (auto simp: clean_of_def dict_get_def py_or_def)
  ultimately show ?thesis
    using transform_loop_entry [OF run assms(3)] out by blast
qed

theorem transform_defaults_missing_fields_witness:
  "raw_models (store_of [bare_m3]) = Some [bare_m3] \<and>
   transform_model_data (store_of [bare_m3]) =
     Inr (''Transform completed successfully'',
          (store_of [bare_m3])\<lparr>transformed_models := Some [clean_m3]\<rparr>) \<and>
   first_occurrence [bare_m3] 0 \<and>
   bare_m3 ''author'' = None \<and> bare_m3 ''pipeline_tag'' = None \<and> bare_m3 ''tags'' = None \<and>
   filter (\<lambda>r. model_id r = PStr ''m3'') [clean_m3] = [clean_m3] \<and>
   author clean_m3 = PStr ''N/A'' \<and> pipeline_tag clean_m3 = PStr ''N/A'' \<and>
   tags clean_m3 = PList []"
proof -
  have h: "raw_models (store_of [bare_m3]) = Some [bare_m3]"
    by (simp add: store_of_def)
  have t: "transform_model_data (store_of [bare_m3]) =
     Inr (''Transform completed successfully'',
          (store_of [bare_m3])\<lparr>transformed_models := Some [clean_m3]\<rparr>)"
    by (simp add: transform_model_data_def store_of_def or_empty_def bare_m3_def clean_m3_def
        dict_get_def clean_of_def py_or_def)
  have f: "first_occurrence [bare_m3] 0"
    by (simp add: first_occurrence_def bare_m3_def dict_get_def)
  have m: "bare_m3 ''author'' = None" "bare_m3 ''pipeline_tag'' = None" "bare_m3 ''tags'' = None"
    by (simp_all add: bare_m3_def)
  from transform_defaults_missing_fields [OF h t f] m
  have "filter (\<lambda>r. model_id r = PStr ''m3'') [clean_m3] = [clean_m3] \<and>
        author clean_m3 = PStr ''N/A'' \<and> pipeline_tag clean_m3 = PStr ''N/A'' \<and>
        tags clean_m3 = PList []"
    by (auto simp: bare_m3_def dict_get_def clean_m3_def split: if_splits)
  with h t f m show ?thesis by blast
qed

text \<open>
  C10. The defaults follow the truth value: for an emitted raw record, an \<open>author\<close> or
  \<open>pipeline_tag\<close> that is present but falsy (the empty string, say) also becomes
  \<open>N/A\<close>, and falsy \<open>tags\<close> become the empty list.
\<close>

theorem transform_defaults_falsy_fields:
  assumes "raw_models ti = Some raw" and "transform_model_data ti = Inr (msg, ti')"
    and "first_occurrence raw i"
  shows "\<exists>out r. transformed_models ti' = Some out \<and>
           filter (\<lambda>r. model_id r = dict_get (raw ! i) ''model_id'') out = [r] \<and>
           (\<forall>v. (raw ! i) ''author'' = Some v \<and> \<not> truthy v \<longrightarrow> author r = PStr ''N/A'') \<and>
           (\<forall>v. (raw ! i) ''pipeline_tag'' = Some v \<and> \<not> truthy v
              \<longrightarrow> pipeline_tag r = PStr ''N/A'') \<and>
           (\<forall>v. (raw ! i) ''tags'' = Some v \<and> \<not> truthy v \<longrightarrow> tags r = PList [])"
proof -
  from transform_model_data_Some [OF assms(1,2)] obtain out where
    out: "transformed_models ti' = Some out" and run: "transform_loop raw {} [] = Inr out"
    by blast
  have "author (clean_of (raw ! i)) = PStr ''N/A''"
    if "(raw ! i) ''author'' = Some v \<and> \<not> truthy v" for v
    using that by (simp add: clean_of_def dict_get_def py_or_def)
  moreover have "pipeline_tag (clean_of (raw ! i)) = PStr ''N/A''"
    if "(raw ! i) ''pipeline_tag'' = Some v \<and> \<not> truthy v" for v
    using that by (simp add: clean_of_def dict_get_def py_or_def)
  moreover have "tags (clean_of (raw ! i)) = PList []"
    if "(raw ! i) ''tags'' = Some v \<and> \<not> truthy v" for v
    using that by (simp add: clean_of_def dict_get_def py_or_def)
  ultimately show ?thesis
    using transform_loop_entry [OF run assms(3)] out by blast
qed

theorem transform_defaults_falsy_fields_witness:
  "raw_models (store_of [blank_m2]) = Some [blank_m2] \<and>
   transform_model_data (store_of [blank_m2]) =
     Inr (''Transform completed successfully'',
          (store_of [blank_m2])\<lparr>transformed_models := Some [clean_m2]\<rparr>) \<and>
   first_occurrence [blank_m2] 0 \<and>
   blank_m2 ''author'' = Some (PStr []) \<and> blank_m2 ''pipeline_tag'' = Some (PStr []) \<and>
   blank_m2 ''tags'' = Some (PList []) \<and> \<not> truthy (PStr []) \<and> \<not> truthy (PList []) \<and>
   filter (\<lambda>r. model_id r = PStr ''m2'') [clean_m2] = [clean_m2] \<and>
   author clean_m2 = PStr ''N/A'' \<and> pipeline_tag clean_m2 = PStr ''N/A'' \<and>
   tags clean_m2 = PList []"
proof -
  have h: "raw_models (store_of [blank_m2]) = Some [blank_m2]"
    by (simp add: store_of_def)
  have t: "transform_model_data (store_of [blank_m2]) =
     Inr (''Transform completed successfully'',
          (store_of [blank_m2])\<lparr>transformed_models := Some [clean_m2]\<rparr>)"
    by (simp add: transform_model_data_def store_of_def or_empty_def blank_m2_def clean_m2_def
        dict_get_def clean_of_def py_or_def)
  have f: "first_occurrence [blank_m2] 0"
    by (simp add: first_occurrence_def blank_m2_def dict_get_def)
  have m: "blank_m2 ''author'' = Some (PStr [])" "blank_m2 ''pipeline_tag'' = Some (PStr [])"
      "blank_m2 ''tags'' = Some (PList [])"
    by (simp_all add: blank_m2_def)
  from transform_defaults_falsy_fields [OF h t f] m
  have "filter (\<lambda>r. model_id r = PStr ''m2'') [clean_m2] = [clean_m2] \<and>
        author clean_m2 = PStr ''N/A'' \<and> pipeline_tag clean_m2 = PStr ''N/A'' \<and>
        tags clean_m2 = PList []"
    by (auto simp: blank_m2_def dict_get_def clean_m2_def split: if_splits)
  with h t f m show ?thesis by simp
qed

subsection \<open>Records without an identifier\<close>




section \<open>Properties of the extractor\<close>

lemma raw_of_missing_attribute:
  assumes "a \<in> {''id'', ''author'', ''pipeline_tag'', ''tags'', ''lastModified''}" and "m a = None"
  shows "raw_of py_str m = Inl AttributeError"
  using assms by (auto simp: raw_of_def getattr_def split: sum.splits option.splits)

lemma map_models_raises:
  "(\<exists>m \<in> set models. \<exists>e. raw_of py_str m = Inl e) \<or> stop \<noteq> None \<Longrightarrow>
   \<exists>e. map_models py_str models stop = Inl e"
proof (induction models)
  case Nil
  then show ?case by (cases stop) auto
next
  case (Cons m ms)
  show ?case
  proof (cases "raw_of py_str m")
    case (Inl e)
    then show ?thesis by simp
  next
    case (Inr r)
    with Cons.prems have "(\<exists>m \<in> set ms. \<exists>e. raw_of py_str m = Inl e) \<or> stop \<noteq> None"
      by auto
    from Cons.IH [OF this] Inr show ?thesis by auto
  qed
qed

lemma extract_example:
  "extract_model_data str_text (Yields [hub_m1] None) \<lparr> raw_models = None, transformed_models = None \<rparr> =
     Inr (''Extract completed successfully'',
          \<lparr> raw_models = Some [scenario_A], transformed_models = None \<rparr>)"
  by (simp add: extract_model_data_def extract_try_def raw_of_def getattr_def hub_m1_def
      scenario_A_def str_text_def)

lemma extract_try_Inl:
  "extract_try py_str api = Inl e \<Longrightarrow>
   extract_model_data py_str api ti = Inr (''Extract failed'', ti\<lparr>raw_models := Some []\<rparr>)"
  by (simp add: extract_model_data_def)

text \<open>
  C3. Whatever is raised inside the \<^verbatim>\<open>try\<close> block by the call of the hub or by the
  mapping step (the call itself raises, its iterator raises after the models it has
  yielded, or the mapping of a model raises, as it does for a model that lacks one of the
  five attributes read), \<open>extract_model_data\<close> does not raise: it returns the status
  \<open>Extract failed\<close> and has written the empty list under \<open>raw_models\<close>.
\<close>

theorem extract_swallows_exceptions:
  assumes "api = CallRaises e
     \<or> (\<exists>models. api = Yields models (Some e))
     \<or> (\<exists>models stop. api = Yields models stop \<and> (\<exists>m \<in> set models. raw_of py_str m = Inl e))"
  shows "extract_model_data py_str api ti =
           Inr (''Extract failed'', ti\<lparr>raw_models := Some []\<rparr>)"
proof -
  have "\<exists>e'. extract_try py_str api = Inl e'"
  proof -
    consider (call) "api = CallRaises e"
      | (iter) models where "api = Yields models (Some e)"
      | (mapping) models stop m where "api = Yields models stop" "m \<in> set models"
          "raw_of py_str m = Inl e"
      using assms by blast
    then show ?thesis
    proof cases
      case call
      then show ?thesis by (simp add: extract_try_def)
    next
      case iter
      then show ?thesis
        using map_models_raises [of models py_str "Some e"] by (simp add: extract_try_def)
    next
      case mapping
      then have "(\<exists>m \<in> set models. \<exists>e. raw_of py_str m = Inl e) \<or> stop \<noteq> None" by blast
      from map_models_raises [OF this] mapping(1) show ?thesis by (simp add: extract_try_def)
    qed
  qed
  then show ?thesis using extract_try_Inl by blast
qed

theorem extract_swallows_exceptions_witness:
  "extract_model_data str_text (CallRaises (OtherException ''ConnectionError''))
     \<lparr> raw_models = None, transformed_models = None \<rparr> =
     Inr (''Extract failed'', \<lparr> raw_models = Some [], transformed_models = None \<rparr>) \<and>
   raw_of str_text [''id'' \<mapsto> PStr ''m1''] = Inl AttributeError \<and>
   extract_model_data str_text (Yields [[''id'' \<mapsto> PStr ''m1'']] None)
     \<lparr> raw_models = None, transformed_models = None \<rparr> =
     Inr (''Extract failed'', \<lparr> raw_models = Some [], transformed_models = None \<rparr>)"
proof -
  have a: "raw_of str_text [''id'' \<mapsto> PStr ''m1''] = Inl AttributeError"
    by (rule raw_of_missing_attribute [of "''author''"]) simp_all
  have "extract_model_data str_text (CallRaises (OtherException ''ConnectionError''))
     \<lparr> raw_models = None, transformed_models = None \<rparr> =
     Inr (''Extract failed'', \<lparr> raw_models = Some [], transformed_models = None \<rparr>)"
    using extract_swallows_exceptions
      [of "CallRaises (OtherException ''ConnectionError'')" "OtherException ''ConnectionError''"
          str_text "\<lparr> raw_models = None, transformed_models = None \<rparr>"]
    by simp
  moreover have "extract_model_data str_text (Yields [[''id'' \<mapsto> PStr ''m1'']] None)
     \<lparr> raw_models = None, transformed_models = None \<rparr> =
     Inr (''Extract failed'', \<lparr> raw_models = Some [], transformed_models = None \<rparr>)"
    using extract_swallows_exceptions
      [of "Yields [[''id'' \<mapsto> PStr ''m1'']] None" AttributeError
          str_text "\<lparr> raw_models = None, transformed_models = None \<rparr>"] a
    by simp
  ultimately show ?thesis using a by blast
qed

section \<open>Properties of the loader\<close>

lemma hook_run_ok:
  "fault (length (executed db)) = None \<Longrightarrow> execute q (ai_models db) = Inr t \<Longrightarrow>
   hook_run fault q db =
     (None, db\<lparr> executed := executed db @ [q], connections := Suc (connections db), ai_models := t \<rparr>)"
  by (simp add: hook_run_def Let_def)

lemma hook_run_fault:
  "fault (length (executed db)) = Some e \<Longrightarrow>
   hook_run fault q db =
     (Some e, db\<lparr> executed := executed db @ [q], connections := Suc (connections db) \<rparr>)"
  by (simp add: hook_run_def Let_def)

lemma hook_run_None:
  "hook_run fault q db = (None, db') \<Longrightarrow>
   \<exists>t. execute q (ai_models db) = Inr t \<and>
       db' = db\<lparr> executed := executed db @ [q], connections := Suc (connections db), ai_models := t \<rparr>"
  by (auto simp: hook_run_def Let_def split: option.splits sum.splits)

lemma insert_loop_None:
  "insert_loop fault models db = (None, db') \<Longrightarrow> ai_models db = Some rows \<Longrightarrow>
   ai_models db' = Some (upsert_all rows models) \<and>
   executed db' = executed db @ map (\<lambda>m. Insert_query (parameters m)) models"
proof (induction models arbitrary: db rows)
  case Nil
  then show ?case by (simp add: upsert_all_def)
next
  case (Cons model rest)
  from Cons.prems(1) obtain db1 where
    h: "hook_run fault (Insert_query (parameters model)) db = (None, db1)" and
    r: "insert_loop fault rest db1 = (None, db')"
    by (auto split: prod.splits option.splits)
  from hook_run_None [OF h] Cons.prems(2)
  have db1: "ai_models db1 = Some (upsert (parameters model) rows)"
      "executed db1 = executed db @ [Insert_query (parameters model)]"
    by auto
  from Cons.IH [OF r db1(1)] db1(2) show ?case
    by (simp add: upsert_all_def)
qed

lemma insert_loop_fault:
  assumes "i < length models" "ai_models db = Some rows"
    and "\<forall>j<i. fault (length (executed db) + j) = None"
    and "fault (length (executed db) + i) = Some e"
  shows "insert_loop fault models db =
     (Some e, db\<lparr> ai_models := Some (upsert_all rows (take i models)),
                 executed := executed db @ map (\<lambda>m. Insert_query (parameters m)) (take (Suc i) models),
                 connections := connections db + Suc i \<rparr>)"
  using assms
proof (induction models arbitrary: db rows i)
  case Nil
  then show ?case by simp
next
  case (Cons model rest)
  show ?case
  proof (cases i)
    case 0
    with Cons.prems show ?thesis
      by (simp add: hook_run_fault upsert_all_def)
  next
    case (Suc k)
    let ?db1 = "db\<lparr> executed := executed db @ [Insert_query (parameters model)],
                    connections := Suc (connections db),
                    ai_models := Some (upsert (parameters model) rows) \<rparr>"
    from Cons.prems Suc have "fault (length (executed db)) = None" by auto
    then have h: "hook_run fault (Insert_query (parameters model)) db = (None, ?db1)"
      using Cons.prems(2) by (simp add: hook_run_ok)
    have "insert_loop fault rest ?db1 =
       (Some e, ?db1\<lparr> ai_models := Some (upsert_all (upsert (parameters model) rows) (take k rest)),
                 executed := executed ?db1 @ map (\<lambda>m. Insert_query (parameters m)) (take (Suc k) rest),
                 connections := connections ?db1 + Suc k \<rparr>)"
    proof (rule Cons.IH)
      show "k < length rest" using Cons.prems(1) Suc by simp
      show "ai_models ?db1 = Some (upsert (parameters model) rows)" by simp
      show "\<forall>j<k. fault (length (executed ?db1) + j) = None"
        using Cons.prems(3) Suc by auto
      show "fault (length (executed ?db1) + k) = Some e"
        using Cons.prems(4) Suc by simp
    qed
    with h Suc show ?thesis by (simp add: upsert_all_def)
  qed
qed


lemma load_to_postgres_Inr:
  assumes "transformed_models ti = Some models" "models \<noteq> []"
    and "load_to_postgres fault ti db = (Inr s, db')"
  shows "ai_models db' = Some (upsert_all (table_of db) models) \<and>
         executed db' = executed db @ Create_table_query # map (\<lambda>m. Insert_query (parameters m)) models \<and>
         s = ''loaded '' @ str_nat (length models) @ '' models''"
proof -
  from assms obtain db1 where
    h: "hook_run fault Create_table_query db = (None, db1)" and
    l: "insert_loop fault models db1 = (None, db')" and
    s: "s = ''loaded '' @ str_nat (length models) @ '' models''"
    by (auto simp: load_to_postgres_def split: prod.splits option.splits)
  from hook_run_None [OF h]
  have db1: "ai_models db1 = Some (table_of db)" "executed db1 = executed db @ [Create_table_query]"
    by (cases "ai_models db"; auto simp: table_of_def)+
  from insert_loop_None [OF l db1(1)] db1(2) s show ?thesis by simp
qed

lemma on_conflict_update_same_key:
  "col_model_id old = col_model_id new \<Longrightarrow> on_conflict_update new old = new"
  by (simp add: on_conflict_update_def)

lemma col_model_id_on_conflict_update [simp]:
  "col_model_id (on_conflict_update new old) = col_model_id old"
  by (simp add: on_conflict_update_def)

lemma conflict_iff:
  "(\<exists>old \<in> set rows. col_model_id old = col_model_id new) \<longleftrightarrow> col_model_id new \<in> set (row_keys rows)"
  by force

lemma keys_update_rows:
  "row_keys (map (\<lambda>old. if col_model_id old = k then on_conflict_update new old else old) rows) = row_keys rows"
  by (induction rows) simp_all

lemma row_keys_upsert:
  "row_keys (upsert new rows) =
     (if col_model_id new \<in> set (row_keys rows) then row_keys rows else row_keys rows @ [col_model_id new])"
  unfolding upsert_def conflict_iff by (simp add: keys_update_rows)

lemma filter_update_rows_other:
  "k \<noteq> k' \<Longrightarrow>
   filter (\<lambda>r. col_model_id r = k)
     (map (\<lambda>old. if col_model_id old = k' then on_conflict_update new old else old) rows) =
   filter (\<lambda>r. col_model_id r = k) rows"
  by (induction rows) simp_all

lemma filter_upsert_other:
  "k \<noteq> col_model_id new \<Longrightarrow>
   filter (\<lambda>r. col_model_id r = k) (upsert new rows) = filter (\<lambda>r. col_model_id r = k) rows"
  unfolding upsert_def conflict_iff by (simp add: filter_update_rows_other)

lemma filter_key_distinct:
  "distinct (row_keys rows) \<Longrightarrow> r \<in> set rows \<Longrightarrow> filter (\<lambda>x. col_model_id x = col_model_id r) rows = [r]"
  by (induction rows) (auto simp: filter_empty_conv image_iff)

lemma filter_upsert_same:
  assumes "distinct (row_keys rows)"
  shows "filter (\<lambda>r. col_model_id r = col_model_id new) (upsert new rows) = [new]"
proof (cases "col_model_id new \<in> set (row_keys rows)")
  case False
  then have "filter (\<lambda>r. col_model_id r = col_model_id new) rows = []"
    unfolding filter_empty_conv using conflict_iff [of rows new] by blast
  with False show ?thesis unfolding upsert_def conflict_iff by simp
next
  case True
  have d: "distinct (row_keys (upsert new rows))" using assms True by (simp add: row_keys_upsert)
  from True obtain old where "old \<in> set rows" "col_model_id old = col_model_id new"
    unfolding conflict_iff [symmetric] by blast
  then have "new \<in> set (map (\<lambda>old. if col_model_id old = col_model_id new
                                      then on_conflict_update new old else old) rows)"
    using on_conflict_update_same_key [of old new] by force
  with True have "new \<in> set (upsert new rows)"
    unfolding upsert_def conflict_iff by simp
  from filter_key_distinct [OF d this] show ?thesis .
qed

lemma row_keys_upsert_all_distinct:
  "distinct (row_keys rows) \<Longrightarrow> distinct (row_keys (upsert_all rows models))"
  by (induction models arbitrary: rows) (auto simp: upsert_all_def row_keys_upsert)

lemma filter_upsert_all_other:
  "k \<notin> set (map model_id models) \<Longrightarrow>
   filter (\<lambda>r. col_model_id r = k) (upsert_all rows models) = filter (\<lambda>r. col_model_id r = k) rows"
proof (induction models arbitrary: rows)
  case Nil
  then show ?case by (simp add: upsert_all_def)
next
  case (Cons m ms)
  then have "k \<noteq> col_model_id (parameters m)" "k \<notin> set (map model_id ms)"
    by (auto simp: parameters_def)
  with Cons.IH [of "upsert (parameters m) rows"] show ?case
    by (simp add: upsert_all_def filter_upsert_other)
qed

lemma filter_upsert_all_last:
  assumes "distinct (row_keys rows)" "i < length models"
    and "model_id (models ! i) \<notin> set (map model_id (drop (Suc i) models))"
  shows "filter (\<lambda>r. col_model_id r = model_id (models ! i)) (upsert_all rows models) =
         [parameters (models ! i)]"
  using assms
proof (induction models arbitrary: rows i)
  case Nil
  then show ?case by simp
next
  case (Cons m ms)
  have step: "upsert_all rows (m # ms) = upsert_all (upsert (parameters m) rows) ms"
    by (simp add: upsert_all_def)
  have d: "distinct (row_keys (upsert (parameters m) rows))"
    using Cons.prems(1) by (simp add: row_keys_upsert)
  show ?case
  proof (cases i)
    case 0
    with Cons.prems(3) have "model_id m \<notin> set (map model_id ms)" by simp
    then have "filter (\<lambda>r. col_model_id r = model_id m) (upsert_all (upsert (parameters m) rows) ms) =
               filter (\<lambda>r. col_model_id r = model_id m) (upsert (parameters m) rows)"
      by (rule filter_upsert_all_other)
    also have "\<dots> = [parameters m]"
      using filter_upsert_same [OF Cons.prems(1), of "parameters m"] by (simp add: parameters_def)
    finally show ?thesis using 0 step by simp
  next
    case (Suc k)
    with Cons.prems have "k < length ms" "model_id (ms ! k) \<notin> set (map model_id (drop (Suc k) ms))"
      by simp_all
    from Cons.IH [OF d this] show ?thesis using Suc step by simp
  qed
qed

lemma row_keys_upsert_all_existing:
  "set (map model_id models) \<subseteq> set (row_keys rows) \<Longrightarrow> row_keys (upsert_all rows models) = row_keys rows"
proof (induction models arbitrary: rows)
  case Nil
  then show ?case by (simp add: upsert_all_def)
next
  case (Cons m ms)
  then have "row_keys (upsert (parameters m) rows) = row_keys rows"
    by (simp add: row_keys_upsert parameters_def)
  with Cons.IH [of "upsert (parameters m) rows"] Cons.prems show ?case
    by (simp add: upsert_all_def)
qed

lemma set_row_keys_upsert_all:
  "set (row_keys (upsert_all rows models)) = set (row_keys rows) \<union> set (map model_id models)"
proof (induction models arbitrary: rows)
  case Nil
  then show ?case by (simp add: upsert_all_def)
next
  case (Cons m ms)
  have "set (row_keys (upsert (parameters m) rows)) = insert (model_id m) (set (row_keys rows))"
    by (auto simp: row_keys_upsert parameters_def)
  with Cons.IH [of "upsert (parameters m) rows"] show ?case
    by (simp add: upsert_all_def)
qed


lemma load_to_postgres_table:
  assumes "transformed_models ti = Some models" and "load_to_postgres fault ti db = (Inr s, db')"
  shows "table_of db' = upsert_all (table_of db) models"
proof (cases "models = []")
  case True
  with assms show ?thesis by (simp add: load_to_postgres_def upsert_all_def)
next
  case False
  from load_to_postgres_Inr [OF assms(1) False assms(2)] show ?thesis
    by (simp add: table_of_def)
qed

text \<open>
  C8. When the store has no \<open>transformed_models\<close>, or has the empty list there, the
  loader returns the status \<open>No data to load\<close> and leaves the database as it is: no
  statement has been sent, no connection taken, the table is untouched.
\<close>

theorem load_nothing_to_load:
  assumes "transformed_models ti = None \<or> transformed_models ti = Some []"
  shows "load_to_postgres fault ti db = (Inr ''No data to load'', db)"
  using assms by (auto simp: load_to_postgres_def)

theorem load_nothing_to_load_witness:
  "transformed_models (cleaned_store []) = Some [] \<and>
   load_to_postgres no_fault (cleaned_store []) empty_db = (Inr ''No data to load'', empty_db) \<and>
   executed empty_db = [] \<and> connections empty_db = 0 \<and> ai_models empty_db = None"
proof -
  have h: "transformed_models (cleaned_store []) = Some []"
    by (simp add: cleaned_store_def)
  then have "transformed_models (cleaned_store []) = None \<or>
             transformed_models (cleaned_store []) = Some []" by simp
  from load_nothing_to_load [OF this, of no_fault empty_db] h show ?thesis
    by (simp add: empty_db_def)
qed

lemma scenario_C:
  "transform_model_data (store_of []) =
     Inr (''Transform completed successfully'', (store_of [])\<lparr>transformed_models := Some []\<rparr>) \<and>
   load_to_postgres fault ((store_of [])\<lparr>transformed_models := Some []\<rparr>) db =
     (Inr ''No data to load'', db)"
  by (simp add: transform_model_data_def store_of_def or_empty_def load_to_postgres_def)

text \<open>
  C4. Let the statement that creates the table and the upserts of the records before
  record \<open>i\<close> succeed, and let the upsert of record \<open>i\<close> raise \<open>e\<close>. Then the loader
  raises \<open>e\<close>; the table holds the upserts of the records before \<open>i\<close>, applied in the
  order of the list to the table as it was; and the statements sent are the creation of
  the table and one upsert for each of the records up to record \<open>i\<close>, in order: none
  for a record after it.
\<close>

theorem load_aborts_at_failing_record:
  assumes models: "transformed_models ti = Some models" and i: "i < length models"
    and create: "fault (length (executed db)) = None"
    and before: "\<forall>j<i. fault (Suc (length (executed db)) + j) = None"
    and at: "fault (Suc (length (executed db)) + i) = Some e"
  shows "load_to_postgres fault ti db =
     (Inl e, db\<lparr> ai_models := Some (upsert_all (table_of db) (take i models)),
                executed := executed db @ Create_table_query #
                            map (\<lambda>m. Insert_query (parameters m)) (take (Suc i) models),
                connections := connections db + i + 2 \<rparr>)"
proof -
  let ?db1 = "db\<lparr> executed := executed db @ [Create_table_query],
                  connections := Suc (connections db),
                  ai_models := Some (table_of db) \<rparr>"
  have ex: "execute Create_table_query (ai_models db) = Inr (Some (table_of db))"
    by (cases "ai_models db") (simp_all add: table_of_def)
  have h: "hook_run fault Create_table_query db = (None, ?db1)"
    using create ex by (simp add: hook_run_ok)
  have "insert_loop fault models ?db1 =
     (Some e, ?db1\<lparr> ai_models := Some (upsert_all (table_of db) (take i models)),
                 executed := executed ?db1 @ map (\<lambda>m. Insert_query (parameters m)) (take (Suc i) models),
                 connections := connections ?db1 + Suc i \<rparr>)"
  proof (rule insert_loop_fault [OF i])
    show "ai_models ?db1 = Some (table_of db)" by simp
    show "\<forall>j<i. fault (length (executed ?db1) + j) = None" using before by simp
    show "fault (length (executed ?db1) + i) = Some e" using at by simp
  qed
  moreover from i have "models \<noteq> []" by auto
  ultimately show ?thesis
    using models h by (simp add: load_to_postgres_def)
qed


theorem load_aborts_at_failing_record_witness:
  "transformed_models (cleaned_store [clean_A, clean_m2]) = Some [clean_A, clean_m2] \<and>
   1 < length [clean_A, clean_m2] \<and>
   fault_at 2 (length (executed empty_db)) = None \<and>
   fault_at 2 (Suc (length (executed empty_db)) + 0) = None \<and>
   fault_at 2 (Suc (length (executed empty_db)) + 1) = Some (OtherException ''OperationalError'') \<and>
   load_to_postgres (fault_at 2) (cleaned_store [clean_A, clean_m2]) empty_db =
     (Inl (OtherException ''OperationalError''),
      \<lparr> ai_models = Some [parameters clean_A],
        executed = [Create_table_query, Insert_query (parameters clean_A),
                    Insert_query (parameters clean_m2)],
        connections = 3 \<rparr>)"
proof -
  have h1: "transformed_models (cleaned_store [clean_A, clean_m2]) = Some [clean_A, clean_m2]"
    by (simp add: cleaned_store_def)
  have h2: "1 < length [clean_A, clean_m2]" by simp
  have h3: "fault_at 2 (length (executed empty_db)) = None"
    by (simp add: fault_at_def empty_db_def)
  have h4: "\<forall>j<1. fault_at 2 (Suc (length (executed empty_db)) + j) = None"
    by (simp add: fault_at_def empty_db_def)
  have h5: "fault_at 2 (Suc (length (executed empty_db)) + 1) =
            Some (OtherException ''OperationalError'')"
    by (simp add: fault_at_def empty_db_def)
  from load_aborts_at_failing_record [OF h1 h2 h3 h4 h5]
  have "load_to_postgres (fault_at 2) (cleaned_store [clean_A, clean_m2]) empty_db =
     (Inl (OtherException ''OperationalError''),
      \<lparr> ai_models = Some [parameters clean_A],
        executed = [Create_table_query, Insert_query (parameters clean_A),
                    Insert_query (parameters clean_m2)],
        connections = 3 \<rparr>)"
    by (simp add: empty_db_def table_of_def upsert_all_def upsert_def)
  moreover have "fault_at 2 (Suc (length (executed empty_db)) + 0) = None"
    by (simp add: fault_at_def empty_db_def)
  ultimately show ?thesis using h1 h2 h3 h5 by blast
qed

lemma insert_loop_no_fault:
  "\<forall>n. fault n = None \<Longrightarrow> ai_models db = Some rows \<Longrightarrow>
   \<exists>db'. insert_loop fault models db = (None, db')"
proof (induction models arbitrary: db rows)
  case Nil
  then show ?case by simp
next
  case (Cons model rest)
  let ?db1 = "db\<lparr> executed := executed db @ [Insert_query (parameters model)],
                  connections := Suc (connections db),
                  ai_models := Some (upsert (parameters model) rows) \<rparr>"
  from Cons.prems have "hook_run fault (Insert_query (parameters model)) db = (None, ?db1)"
    by (simp add: hook_run_ok)
  moreover have "ai_models ?db1 = Some (upsert (parameters model) rows)" by simp
  from Cons.IH [OF Cons.prems(1) this]
  obtain db' where "insert_loop fault rest ?db1 = (None, db')" by blast
  ultimately show ?case by simp
qed

lemma load_to_postgres_no_fault:
  assumes "\<forall>n. fault n = None"
  shows "\<exists>s db'. load_to_postgres fault ti db = (Inr s, db')"
proof (cases "transformed_models ti")
  case None
  then show ?thesis by (simp add: load_to_postgres_def)
next
  case (Some models)
  show ?thesis
  proof (cases "models = []")
    case True
    with Some show ?thesis by (simp add: load_to_postgres_def)
  next
    case False
    let ?db1 = "db\<lparr> executed := executed db @ [Create_table_query],
                    connections := Suc (connections db),
                    ai_models := Some (table_of db) \<rparr>"
    have "execute Create_table_query (ai_models db) = Inr (Some (table_of db))"
      by (cases "ai_models db") (simp_all add: table_of_def)
    with assms have h: "hook_run fault Create_table_query db = (None, ?db1)"
      by (simp add: hook_run_ok)
    have "ai_models ?db1 = Some (table_of db)" by simp
    from insert_loop_no_fault [OF assms this]
    obtain db' where "insert_loop fault models ?db1 = (None, db')" by blast
    with h Some False show ?thesis by (simp add: load_to_postgres_def)
  qed
qed

text \<open>
  C2. Take a table whose rows have distinct keys, load a list of cleaned records, then
  load a second list (the same list again, or a list with updated records). When the
  store raises on no statement, both loads return. Whenever both loads return, the table
  has distinct keys; for each record of the second list that no later record of that
  list overrides (every record, when the identifiers of the list are distinct, as those
  of a transformed list are), the table has exactly one row with the identifier of the
  record, and this row holds the values of the record, whatever the row held before; and
  if the identifiers of the second list are among those of the first, the second load
  leaves the keys of the table as they were, row by row: it adds no row.
\<close>

theorem load_twice_one_row_per_model_id:
  assumes "distinct (row_keys (table_of db))"
    and "transformed_models ti = Some models"
    and "transformed_models ti2 = Some models2"
  shows "((\<forall>n. fault n = None) \<longrightarrow>
            (\<exists>s1 db1 s2 db2.
               load_to_postgres fault ti db = (Inr s1, db1) \<and>
               load_to_postgres fault ti2 db1 = (Inr s2, db2))) \<and>
         (\<forall>s1 db1 s2 db2.
            load_to_postgres fault ti db = (Inr s1, db1) \<and>
            load_to_postgres fault ti2 db1 = (Inr s2, db2) \<longrightarrow>
            distinct (row_keys (table_of db2)) \<and>
            (\<forall>i<length models2.
               model_id (models2 ! i) \<notin> set (map model_id (drop (Suc i) models2)) \<longrightarrow>
               filter (\<lambda>r. col_model_id r = model_id (models2 ! i)) (table_of db2) =
                 [\<lparr> col_model_id = model_id (models2 ! i),
                    col_author = author (models2 ! i),
                    col_pipeline_tag = pipeline_tag (models2 ! i),
                    col_tags = tags (models2 ! i),
                    col_last_modified = last_modified (models2 ! i) \<rparr>]) \<and>
            (set (map model_id models2) \<subseteq> set (map model_id models) \<longrightarrow>
               row_keys (table_of db2) = row_keys (table_of db1)))"
proof (intro conjI allI impI)
  assume nf: "\<forall>n. fault n = None"
  from load_to_postgres_no_fault [OF nf, of ti db]
  obtain s1 db1 where l1: "load_to_postgres fault ti db = (Inr s1, db1)" by blast
  from load_to_postgres_no_fault [OF nf, of ti2 db1]
  obtain s2 db2 where "load_to_postgres fault ti2 db1 = (Inr s2, db2)" by blast
  with l1 show "\<exists>s1 db1 s2 db2.
      load_to_postgres fault ti db = (Inr s1, db1) \<and>
      load_to_postgres fault ti2 db1 = (Inr s2, db2)" by blast
next
  fix s1 db1 s2 db2
  assume loads: "load_to_postgres fault ti db = (Inr s1, db1) \<and>
                 load_to_postgres fault ti2 db1 = (Inr s2, db2)"
  have t1: "table_of db1 = upsert_all (table_of db) models"
    using assms(2) loads by (blast intro: load_to_postgres_table)
  have t2: "table_of db2 = upsert_all (table_of db1) models2"
    using assms(3) loads by (blast intro: load_to_postgres_table)
  have d1: "distinct (row_keys (table_of db1))"
    unfolding t1 using assms(1) by (rule row_keys_upsert_all_distinct)
  show "distinct (row_keys (table_of db2))"
    unfolding t2 using d1 by (rule row_keys_upsert_all_distinct)
  {
    fix i
    assume "i < length models2"
      and "model_id (models2 ! i) \<notin> set (map model_id (drop (Suc i) models2))"
    with d1 have "filter (\<lambda>r. col_model_id r = model_id (models2 ! i))
                    (upsert_all (table_of db1) models2) = [parameters (models2 ! i)]"
      by (rule filter_upsert_all_last)
    then show "filter (\<lambda>r. col_model_id r = model_id (models2 ! i)) (table_of db2) =
                 [\<lparr> col_model_id = model_id (models2 ! i),
                    col_author = author (models2 ! i),
                    col_pipeline_tag = pipeline_tag (models2 ! i),
                    col_tags = tags (models2 ! i),
                    col_last_modified = last_modified (models2 ! i) \<rparr>]"
      by (simp add: t2 parameters_def)
  }
  {
    assume sub: "set (map model_id models2) \<subseteq> set (map model_id models)"
    have "set (map model_id models) \<subseteq> set (row_keys (table_of db1))"
      unfolding t1 using set_row_keys_upsert_all [of "table_of db" models] by auto
    with sub have "set (map model_id models2) \<subseteq> set (row_keys (table_of db1))" by blast
    then show "row_keys (table_of db2) = row_keys (table_of db1)"
      unfolding t2 by (rule row_keys_upsert_all_existing)
  }
qed

lemma str_nat_1: "str_nat (Suc 0) = ''1''"
  by (subst str_nat.simps) simp

lemma str_nat_2: "str_nat (Suc (Suc 0)) = ''2''"
  by (subst str_nat.simps) simp

lemma load_example_once:
  "load_to_postgres no_fault (cleaned_store [clean_A, clean_m2]) empty_db =
     (Inr ''loaded 2 models'', db_once)"
  by (simp add: load_to_postgres_def cleaned_store_def empty_db_def db_once_def hook_run_def
      Let_def no_fault_def upsert_def parameters_def clean_A_def clean_m2_def str_nat_2)

lemma load_example_twice:
  "load_to_postgres no_fault (cleaned_store [clean_A, clean_m2]) db_once =
     (Inr ''loaded 2 models'', db_twice)"
  by (simp add: load_to_postgres_def cleaned_store_def db_twice_def db_once_def hook_run_def
      Let_def no_fault_def upsert_def parameters_def clean_A_def clean_m2_def str_nat_2
      on_conflict_update_def)

lemma load_example_update:
  "load_to_postgres no_fault (cleaned_store [clean_A_updated]) db_once =
     (Inr ''loaded 1 models'', db_updated)"
  by (simp add: load_to_postgres_def cleaned_store_def db_once_def db_updated_def hook_run_def
      Let_def no_fault_def upsert_def parameters_def clean_A_def clean_m2_def str_nat_1
      on_conflict_update_def clean_A_updated_def)

theorem load_twice_one_row_per_model_id_witness:
  "distinct (row_keys (table_of empty_db)) \<and>
   transformed_models (cleaned_store [clean_A, clean_m2]) = Some [clean_A, clean_m2] \<and>
   transformed_models (cleaned_store [clean_A_updated]) = Some [clean_A_updated] \<and>
   no_fault 0 = None \<and>
   (\<exists>s1 db1 s2 db2.
      load_to_postgres no_fault (cleaned_store [clean_A, clean_m2]) empty_db = (Inr s1, db1) \<and>
      load_to_postgres no_fault (cleaned_store [clean_A_updated]) db1 = (Inr s2, db2)) \<and>
   load_to_postgres no_fault (cleaned_store [clean_A, clean_m2]) empty_db =
     (Inr ''loaded 2 models'', db_once) \<and>
   load_to_postgres no_fault (cleaned_store [clean_A_updated]) db_once =
     (Inr ''loaded 1 models'', db_updated) \<and>
   table_of db_once =
     [\<lparr> col_model_id = PStr ''m1'', col_author = PStr ''N/A'',
        col_pipeline_tag = PStr ''text-gen'', col_tags = PList [],
        col_last_modified = PStr ''2024-01-01'' \<rparr>,
      \<lparr> col_model_id = PStr ''m2'', col_author = PStr ''N/A'',
        col_pipeline_tag = PStr ''N/A'', col_tags = PList [],
        col_last_modified = PStr ''2024-03-03'' \<rparr>] \<and>
   distinct (row_keys (table_of db_updated)) \<and>
   filter (\<lambda>r. col_model_id r = PStr ''m1'') (table_of db_updated) =
     [\<lparr> col_model_id = PStr ''m1'', col_author = PStr ''bob'',
        col_pipeline_tag = PStr ''text-gen'', col_tags = PList [PStr ''nlp''],
        col_last_modified = PStr ''2024-02-02'' \<rparr>] \<and>
   row_keys (table_of db_updated) = row_keys (table_of db_once) \<and>
   load_to_postgres no_fault (cleaned_store [clean_A, clean_m2]) db_once =
     (Inr ''loaded 2 models'', db_twice) \<and>
   table_of db_twice = table_of db_once"
proof -
  have h0: "distinct (row_keys (table_of empty_db))"
    by (simp add: table_of_def empty_db_def)
  have h1: "transformed_models (cleaned_store [clean_A, clean_m2]) = Some [clean_A, clean_m2]"
    by (simp add: cleaned_store_def)
  have h2: "transformed_models (cleaned_store [clean_A_updated]) = Some [clean_A_updated]"
    by (simp add: cleaned_store_def)
  have nf: "\<forall>n. no_fault n = None" by (simp add: no_fault_def)
  then have nf0: "no_fault 0 = None" by simp
  note update = load_twice_one_row_per_model_id [OF h0 h1 h2, of no_fault]
  from update nf have ex: "\<exists>s1 db1 s2 db2.
      load_to_postgres no_fault (cleaned_store [clean_A, clean_m2]) empty_db = (Inr s1, db1) \<and>
      load_to_postgres no_fault (cleaned_store [clean_A_updated]) db1 = (Inr s2, db2)"
    by blast
  have both: "load_to_postgres no_fault (cleaned_store [clean_A, clean_m2]) empty_db =
                (Inr ''loaded 2 models'', db_once) \<and>
              load_to_postgres no_fault (cleaned_store [clean_A_updated]) db_once =
                (Inr ''loaded 1 models'', db_updated)"
    using load_example_once load_example_update by simp
  note props = update [THEN conjunct2, rule_format, OF both]
  from props have d: "distinct (row_keys (table_of db_updated))" by (rule conjunct1)
  have r: "filter (\<lambda>r. col_model_id r = PStr ''m1'') (table_of db_updated) =
     [\<lparr> col_model_id = PStr ''m1'', col_author = PStr ''bob'',
        col_pipeline_tag = PStr ''text-gen'', col_tags = PList [PStr ''nlp''],
        col_last_modified = PStr ''2024-02-02'' \<rparr>]"
    using props [THEN conjunct2, THEN conjunct1, rule_format, of 0]
    by (simp add: clean_A_updated_def)
  have k: "row_keys (table_of db_updated) = row_keys (table_of db_once)"
    using props [THEN conjunct2, THEN conjunct2]
    by (simp add: clean_A_updated_def clean_A_def)
  have t1: "table_of db_once =
     [\<lparr> col_model_id = PStr ''m1'', col_author = PStr ''N/A'',
        col_pipeline_tag = PStr ''text-gen'', col_tags = PList [],
        col_last_modified = PStr ''2024-01-01'' \<rparr>,
      \<lparr> col_model_id = PStr ''m2'', col_author = PStr ''N/A'',
        col_pipeline_tag = PStr ''N/A'', col_tags = PList [],
        col_last_modified = PStr ''2024-03-03'' \<rparr>]"
    by (simp add: table_of_def db_once_def parameters_def clean_A_def clean_m2_def)
  have t2: "table_of db_twice = table_of db_once"
    by (simp add: table_of_def db_once_def db_twice_def)
  from h0 h1 h2 nf0 ex both d r k t1 t2 load_example_twice show ?thesis by blast
qed

end
